theory Spec2Isabelle
  imports Main
begin

section \<open>Tokens and source text\<close>

text \<open>
  The interpreter reads its program from a JavaScript string \<open>blob\<close>, one UTF-16 code unit
  at a time (\<open>blob[i]\<close>).  A source text is modelled as a \<open>string\<close>; every \<open>char\<close>
  stands for one code unit.  The eight token constants of the source are abbreviations of
  the characters they are bound to.
\<close>

abbreviation TOKEN_INCR :: char where "TOKEN_INCR \<equiv> CHR ''+''"
abbreviation TOKEN_DECR :: char where "TOKEN_DECR \<equiv> CHR ''-''"
abbreviation TOKEN_LEFT :: char where "TOKEN_LEFT \<equiv> CHR ''<''"
abbreviation TOKEN_RIGHT :: char where "TOKEN_RIGHT \<equiv> CHR ''>''"
abbreviation TOKEN_LOOP_START :: char where "TOKEN_LOOP_START \<equiv> CHR ''[''"
abbreviation TOKEN_LOOP_STOP :: char where "TOKEN_LOOP_STOP \<equiv> CHR '']''"
abbreviation TOKEN_INPUT :: char where "TOKEN_INPUT \<equiv> CHR '',''"
abbreviation TOKEN_PRINT :: char where "TOKEN_PRINT \<equiv> CHR ''.''"

definition token_alphabet :: "char set" where
  "token_alphabet =
     {TOKEN_INCR, TOKEN_DECR, TOKEN_LEFT, TOKEN_RIGHT, TOKEN_LOOP_START, TOKEN_LOOP_STOP,
      TOKEN_INPUT, TOKEN_PRINT}"

text \<open>
  \<open>blob[i]\<close>: the character at index \<open>i\<close>, and \<open>undefined\<close> (here \<open>None\<close>) when \<open>i\<close> is
  negative or not below \<open>blob.length\<close>.  \<open>undefined\<close> is equal to no token.
\<close>

definition blob_at :: "string \<Rightarrow> int \<Rightarrow> char option" where
  "blob_at blob i =
     (if 0 \<le> i \<and> i < int (length blob) then Some (blob ! nat i) else None)"

text \<open>The only error either function reports, \<open>{'error': 'unterminated loop'}\<close>.\<close>

datatype error = UnterminatedLoop

fun error_message :: "error \<Rightarrow> string" where
  "error_message UnterminatedLoop = ''unterminated loop''"


section \<open>The parser\<close>

text \<open>
  \<open>parse\<close> returns an array whose elements are one-character strings and nested arrays
  (the parsed contents of one loop).
\<close>

datatype node = Leaf char | Seq "node list"

text \<open>
  The \<open>do ... while (balance != 0 && i < blob.length)\<close> loop of \<open>parse\<close>.  The body runs
  once before the condition is looked at.  It carries \<open>innerContent\<close>, \<open>balance\<close> and the
  index \<open>i\<close> it shares with the enclosing \<open>for\<close> loop, and returns all three as they stand
  when the loop is left.  (\<open>innerContent += blob[i]\<close> with \<open>blob[i]\<close> undefined appends the
  text \<open>undefined\<close>; \<open>parse\<close> never gets there.)
\<close>

function parse_scan :: "string \<Rightarrow> int \<Rightarrow> string \<Rightarrow> int \<Rightarrow> string \<times> int \<times> int" where
  "parse_scan blob i innerContent balance =
     (let (innerContent', balance') =
            (if blob_at blob i = Some TOKEN_LOOP_START then
               (if balance + 1 > 1 then innerContent @ [TOKEN_LOOP_START] else innerContent,
                balance + 1)
             else if blob_at blob i = Some TOKEN_LOOP_STOP then
               (if balance - 1 > 0 then innerContent @ [TOKEN_LOOP_STOP] else innerContent,
                balance - 1)
             else
               (innerContent @ (case blob_at blob i of Some c \<Rightarrow> [c] | None \<Rightarrow> ''undefined''),
                balance));
          i' = i + 1
      in if balance' \<noteq> 0 \<and> i' < int (length blob)
         then parse_scan blob i' innerContent' balance'
         else (innerContent', balance', i'))"
  by pat_completeness auto
termination
  by (relation "measure (\<lambda>(blob, i, innerContent, balance). nat (int (length blob) - i))")
     auto

declare parse_scan.simps [simp del]

text \<open>
  The \<open>for (let i = 0; i < blob.length; i++)\<close> loop of \<open>parse\<close>, from index \<open>i\<close> with the
  result array \<open>res\<close> built so far.  After the inner scan has moved \<open>i\<close> behind the
  matching loop-stop, the loop's own \<open>i++\<close> still runs.  Whether the recursion ends is not
  assumed: a run that does not return is \<open>None\<close>.  The index starts at 0 and only grows,
  so under the loop's guard \<open>blob[i]\<close> is a character.
\<close>

partial_function (option) parse_loop ::
  "string \<Rightarrow> int \<Rightarrow> node list \<Rightarrow> (error + node list) option" where
  "parse_loop blob i res =
     (if i < int (length blob) then
        (if blob_at blob i = Some TOKEN_LOOP_START then
           (case parse_scan blob i [] 0 of
              (innerContent, balance, i') \<Rightarrow>
                if balance \<noteq> 0 then Some (Inl UnterminatedLoop)
                else
                  Option.bind (parse_loop innerContent 0 [])
                    (\<lambda>innerParsed.
                       case innerParsed of
                         Inl e \<Rightarrow> Some (Inl e)
                       | Inr r \<Rightarrow> parse_loop blob (i' + 1) (res @ [Seq r])))
         else
           parse_loop blob (i + 1)
             (res @ (case blob_at blob i of Some c \<Rightarrow> [Leaf c] | None \<Rightarrow> [])))
      else Some (Inr res))"

declare parse_loop.simps [code]

definition parse :: "string \<Rightarrow> (error + node list) option" where
  "parse blob = parse_loop blob 0 []"


section \<open>The evaluator\<close>

subsection \<open>Numbers and the memory array\<close>

text \<open>
  Every number the evaluator holds starts at 0 and changes by \<open>++\<close> and \<open>--\<close> only, so it
  is an integer of magnitude at most \<open>2^53\<close>, where a double no longer moves by adding or
  subtracting one.
\<close>

definition js_incr :: "int \<Rightarrow> int" where
  "js_incr n = (if n = 9007199254740992 then n else n + 1)"

definition js_decr :: "int \<Rightarrow> int" where
  "js_decr n = (if n = - 9007199254740992 then n else n - 1)"

text \<open>
  What a property of \<open>mem\<close> can hold: a number of that kind, or \<open>NaN\<close>.  Reading a property
  that was never written gives \<open>undefined\<close>, here \<open>None\<close>.
\<close>

datatype jsval = Num int | NaN

text \<open>
  The array \<open>mem\<close>: its \<open>length\<close> and its properties by numeric key.  A write at a key
  from 0 to \<open>2^32 - 2\<close> that is not below \<open>length\<close> makes the array longer; a write at any
  other key (a negative one, say) adds a property and leaves \<open>length\<close> alone.
\<close>

record jsarray =
  arr_length :: int
  arr_elems :: "int \<Rightarrow> jsval option"

definition mem_read :: "jsarray \<Rightarrow> int \<Rightarrow> jsval option" where
  "mem_read m p = arr_elems m p"

definition mem_write :: "jsarray \<Rightarrow> int \<Rightarrow> jsval \<Rightarrow> jsarray" where
  "mem_write m p v =
     \<lparr>arr_length =
        (if 0 \<le> p \<and> p < 4294967295 \<and> arr_length m \<le> p then p + 1 else arr_length m),
      arr_elems = (arr_elems m)(p \<mapsto> v)\<rparr>"

text \<open>\<open>Array(...Array(30000)).map(Number.prototype.valueOf, 0)\<close>: 30000 cells, all 0.\<close>

definition fresh_mem :: jsarray where
  "fresh_mem =
     \<lparr>arr_length = 30000,
      arr_elems = (\<lambda>k. if 0 \<le> k \<and> k < 30000 then Some (Num 0) else None)\<rparr>"

text \<open>\<open>ToNumber\<close> of what was read: \<open>undefined\<close> becomes \<open>NaN\<close>.\<close>

fun to_number :: "jsval option \<Rightarrow> jsval" where
  "to_number None = NaN"
| "to_number (Some v) = v"

text \<open>\<open>mem[datPtr]++\<close> and \<open>mem[datPtr]--\<close>.\<close>

fun incr_val :: "jsval \<Rightarrow> jsval" where
  "incr_val (Num n) = Num (js_incr n)"
| "incr_val NaN = NaN"

fun decr_val :: "jsval \<Rightarrow> jsval" where
  "decr_val (Num n) = Num (js_decr n)"
| "decr_val NaN = NaN"

definition mem_incr :: "jsarray \<Rightarrow> int \<Rightarrow> jsarray" where
  "mem_incr m p = mem_write m p (incr_val (to_number (mem_read m p)))"

definition mem_decr :: "jsarray \<Rightarrow> int \<Rightarrow> jsarray" where
  "mem_decr m p = mem_write m p (decr_val (to_number (mem_read m p)))"

text \<open>\<open>mem[datPtr] == 0\<close> and \<open>mem[datPtr] > 0\<close>; both are false of \<open>undefined\<close> and \<open>NaN\<close>.\<close>

fun is_zero :: "jsval option \<Rightarrow> bool" where
  "is_zero (Some (Num n)) = (n = 0)"
| "is_zero (Some NaN) = False"
| "is_zero None = False"

fun is_positive :: "jsval option \<Rightarrow> bool" where
  "is_positive (Some (Num n)) = (n > 0)"
| "is_positive (Some NaN) = False"
| "is_positive None = False"

text \<open>
  \<open>String.fromCharCode(mem[datPtr])\<close>: the code unit \<open>ToUint16\<close> of the value, which is 0
  for \<open>NaN\<close> and \<open>undefined\<close>.  The output is kept as the list of these code units.
\<close>

fun from_char_code :: "jsval option \<Rightarrow> nat" where
  "from_char_code (Some (Num n)) = nat (n mod 65536)"
| "from_char_code (Some NaN) = 0"
| "from_char_code None = 0"

subsection \<open>The two bracket scans\<close>

text \<open>
  The forward \<open>do ... while (balance != 0 && i < blob.length)\<close> loop under
  \<open>case TOKEN_LOOP_START\<close>; it returns \<open>i\<close> and \<open>balance\<close> as the loop leaves them.
\<close>

function skip_forward :: "string \<Rightarrow> int \<Rightarrow> int \<Rightarrow> int \<times> int" where
  "skip_forward blob i balance =
     (let balance' =
            (if blob_at blob i = Some TOKEN_LOOP_START then balance + 1
             else if blob_at blob i = Some TOKEN_LOOP_STOP then balance - 1
             else balance);
          i' = i + 1
      in if balance' \<noteq> 0 \<and> i' < int (length blob)
         then skip_forward blob i' balance'
         else (i', balance'))"
  by pat_completeness auto
termination
  by (relation "measure (\<lambda>(blob, i, balance). nat (int (length blob) - i))") auto

declare skip_forward.simps [simp del]

text \<open>
  The backward loop under \<open>case TOKEN_LOOP_STOP\<close>.  It counts \<open>i\<close> down, and its
  condition is the forward loop's, \<open>balance != 0 && i < blob.length\<close>.  Nothing bounds
  the number of its rounds, so a scan that never leaves the loop is \<open>None\<close>.
\<close>

partial_function (option) jump_back :: "string \<Rightarrow> int \<Rightarrow> int \<Rightarrow> (int \<times> int) option" where
  "jump_back blob i balance =
     (let balance' =
            (if blob_at blob i = Some TOKEN_LOOP_START then balance + 1
             else if blob_at blob i = Some TOKEN_LOOP_STOP then balance - 1
             else balance);
          i' = js_decr i
      in if balance' \<noteq> 0 \<and> i' < int (length blob)
         then jump_back blob i' balance'
         else Some (i', balance'))"

declare jump_back.simps [code]

subsection \<open>The main loop\<close>

text \<open>The local variables of \<open>eval\<close> that the loop changes, next to the index \<open>i\<close>.\<close>

record eval_state =
  mem :: jsarray
  datPtr :: int
  programOutput :: "nat list"

text \<open>What a successful call returns: \<open>{'ptrPos': datPtr, 'stdout': programOutput, 'mem': mem}\<close>.\<close>

record eval_result =
  ptrPos :: int
  stdout :: "nat list"
  memory :: jsarray

definition initial_state :: eval_state where
  "initial_state = \<lparr>mem = fresh_mem, datPtr = 0, programOutput = []\<rparr>"

text \<open>
  The \<open>switch (blob[i])\<close> statement: one pass through the body of the \<open>for\<close> loop at index
  \<open>i\<close>.  It returns the error of a \<open>return\<close> inside the body, or the index and the
  variables as the body leaves them (the loop's \<open>i++\<close> not yet done); \<open>None\<close> when the
  backward scan does not come back.
\<close>

definition eval_body ::
  "string \<Rightarrow> int \<Rightarrow> eval_state \<Rightarrow> (error + int \<times> eval_state) option" where
  "eval_body blob i s =
     (if blob_at blob i = Some TOKEN_INCR then
        Some (Inr (i, s\<lparr>mem := mem_incr (mem s) (datPtr s)\<rparr>))
      else if blob_at blob i = Some TOKEN_DECR then
        Some (Inr (i, s\<lparr>mem := mem_decr (mem s) (datPtr s)\<rparr>))
      else if blob_at blob i = Some TOKEN_RIGHT then
        Some (Inr (i, s\<lparr>datPtr := js_incr (datPtr s)\<rparr>))
      else if blob_at blob i = Some TOKEN_LEFT then
        Some (Inr (i, s\<lparr>datPtr := js_decr (datPtr s)\<rparr>))
      else if blob_at blob i = Some TOKEN_INPUT then
        Some (Inr (i, s))
      else if blob_at blob i = Some TOKEN_PRINT then
        Some (Inr (i, s\<lparr>programOutput :=
                          programOutput s @ [from_char_code (mem_read (mem s) (datPtr s))]\<rparr>))
      else if blob_at blob i = Some TOKEN_LOOP_START then
        (if is_zero (mem_read (mem s) (datPtr s)) then
           (case skip_forward blob i 0 of
              (i', balance) \<Rightarrow>
                if balance \<noteq> 0 then Some (Inl UnterminatedLoop) else Some (Inr (i', s)))
         else Some (Inr (i, s)))
      else if blob_at blob i = Some TOKEN_LOOP_STOP then
        (if is_positive (mem_read (mem s) (datPtr s)) then
           (case jump_back blob i 0 of
              None \<Rightarrow> None
            | Some (i', balance) \<Rightarrow>
                if balance \<noteq> 0 then Some (Inl UnterminatedLoop) else Some (Inr (i', s)))
         else Some (Inr (i, s)))
      else Some (Inr (i, s)))"

text \<open>
  The \<open>for (let i = 0; i < blob.length; i++)\<close> loop of \<open>eval\<close> from index \<open>i\<close>, and the
  \<open>return\<close> behind it.  A program that loops forever is \<open>None\<close>.
\<close>

partial_function (option) eval_loop ::
  "string \<Rightarrow> int \<Rightarrow> eval_state \<Rightarrow> (error + eval_result) option" where
  "eval_loop blob i s =
     (if i < int (length blob) then
        (case eval_body blob i s of
           None \<Rightarrow> None
         | Some (Inl e) \<Rightarrow> Some (Inl e)
         | Some (Inr (i', s')) \<Rightarrow> eval_loop blob (i' + 1) s')
      else
        Some (Inr \<lparr>ptrPos = datPtr s, stdout = programOutput s, memory = mem s\<rparr>))"

declare eval_loop.simps [code]

definition eval :: "string \<Rightarrow> (error + eval_result) option" where
  "eval blob = eval_loop blob 0 initial_state"


subsection \<open>The states a run goes through\<close>

text \<open>
  \<open>reaches_from blob i0 s0 i s\<close>: the main loop of \<open>eval\<close> on \<open>blob\<close>, standing at its guard
  with index \<open>i0\<close> and variables \<open>s0\<close>, later stands there with index \<open>i\<close> and variables
  \<open>s\<close>.  Every round of the loop that comes back without an error leads to the next such
  state.  The states of the run of \<open>eval blob\<close> are those reached from index 0 and the
  initial state.
\<close>

inductive reaches_from :: "string \<Rightarrow> int \<Rightarrow> eval_state \<Rightarrow> int \<Rightarrow> eval_state \<Rightarrow> bool"
  for blob :: string and i0 :: int and s0 :: eval_state where
  reaches_start: "reaches_from blob i0 s0 i0 s0"
| reaches_round:
    "reaches_from blob i0 s0 i s \<Longrightarrow> i < int (length blob) \<Longrightarrow>
     eval_body blob i s = Some (Inr (i', s')) \<Longrightarrow> reaches_from blob i0 s0 (i' + 1) s'"

abbreviation reaches :: "string \<Rightarrow> int \<Rightarrow> eval_state \<Rightarrow> bool" where
  "reaches blob \<equiv> reaches_from blob 0 initial_state"

text \<open>The rounds that write to \<open>mem\<close>: those at an increment or a decrement token.\<close>

definition is_write :: "string \<Rightarrow> int \<Rightarrow> bool" where
  "is_write blob i \<longleftrightarrow>
     blob_at blob i = Some TOKEN_INCR \<or> blob_at blob i = Some TOKEN_DECR"

text \<open>Some write of the run finds the data pointer at \<open>k\<close>.\<close>

definition touched :: "string \<Rightarrow> int \<Rightarrow> bool" where
  "touched blob k \<longleftrightarrow> (\<exists>i s. reaches blob i s \<and> is_write blob i \<and> datPtr s = k)"

text \<open>
  Some write of the run finds the data pointer at an array index behind the 30000 cells,
  that is from 30000 to \<open>2^32 - 2\<close>.
\<close>

definition writes_past_end :: "string \<Rightarrow> bool" where
  "writes_past_end blob \<longleftrightarrow> (\<exists>k. 30000 \<le> k \<and> k < 4294967295 \<and> touched blob k)"

text \<open>Each of the cells 0 to 29999 holds an integer.\<close>

definition cells_integer :: "jsarray \<Rightarrow> bool" where
  "cells_integer m \<longleftrightarrow> (\<forall>k. 0 \<le> k \<and> k < 30000 \<longrightarrow> (\<exists>n. arr_elems m k = Some (Num n)))"

text \<open>The array is 30000 long and has no element at a later array index.\<close>

definition ends_at_tape :: "jsarray \<Rightarrow> bool" where
  "ends_at_tape m \<longleftrightarrow>
     arr_length m = 30000 \<and> (\<forall>k. 30000 \<le> k \<and> k < 4294967295 \<longrightarrow> arr_elems m k = None)"


section \<open>Evaluating the model on a given source\<close>

text \<open>
  The equations that unfold a call on a concrete source text.  The backward scan is left
  out of \<open>eval_unfold\<close>: it is unfolded by hand where it is known to come back.
\<close>

lemmas parse_unfold = parse_def parse_loop.simps parse_scan.simps blob_at_def

lemmas eval_unfold = eval_def eval_loop.simps eval_body_def blob_at_def skip_forward.simps
  initial_state_def fresh_mem_def mem_incr_def mem_decr_def mem_read_def mem_write_def
  js_incr_def js_decr_def

lemma blob_at_SomeD: "blob_at blob i = Some c \<Longrightarrow> 0 \<le> i \<and> i < int (length blob)"
  by (simp add: blob_at_def split: if_splits)

lemma blob_at_negative: "i < 0 \<Longrightarrow> blob_at blob i = None"
  by (simp add: blob_at_def)


section \<open>The parser on given sources\<close>

text \<open>
  C5: \<open>parse("[")\<close>, \<open>parse("[[]")\<close> and \<open>parse("++[--")\<close> fail with the unterminated-loop
  error; \<open>parse("[]")\<close> and \<open>parse("[[][]]")\<close> succeed.  The results of the two successful
  calls are given in full.
\<close>

theorem parse_unterminated_detection:
  "parse ''['' = Some (Inl UnterminatedLoop) \<and>
   parse ''[[]'' = Some (Inl UnterminatedLoop) \<and>
   parse ''++[--'' = Some (Inl UnterminatedLoop) \<and>
   error_message UnterminatedLoop = ''unterminated loop'' \<and>
   parse ''[]'' = Some (Inr [Seq []]) \<and>
   parse ''[[][]]'' = Some (Inr [Seq [Seq [], Leaf TOKEN_LOOP_STOP]])"
  by (simp add: parse_unfold)

text \<open>
  C1: the source \<open>[]+\<close> is one well-balanced loop followed by one top-level character, so
  the claim asks for a result of two elements, the nested sequence and the leaf \<open>+\<close>.
  \<open>parse\<close> succeeds, but its result has the nested sequence only: the inner scan leaves
  the index behind the loop-stop, the \<open>for\<close> loop increments it once more, and the \<open>+\<close> is
  never looked at.
\<close>

theorem parse_drops_character_after_loop:
  "parse ''[]+'' = Some (Inr [Seq []])"
  by (simp add: parse_unfold)

text \<open>
  C8: in \<open>[]]\<close> the last character is a loop-stop outside every loop-start scan (the only
  scan ends at index 1).  \<open>parse\<close> does not fail on it, but does not append it as a leaf
  either: it is the character behind a closed loop, which the \<open>for\<close> loop steps over.
\<close>

theorem parse_drops_loop_stop_after_loop:
  "parse ''[]]'' = Some (Inr [Seq []])"
  by (simp add: parse_unfold)


text \<open>
  A loop-stop that the main scan does visit is pushed as a leaf, like any other character
  that is not a loop-start.
\<close>

lemma parse_loop_stop_leaf:
  assumes "blob_at blob i = Some TOKEN_LOOP_STOP"
  shows "parse_loop blob i res = parse_loop blob (i + 1) (res @ [Leaf TOKEN_LOOP_STOP])"
  using assms blob_at_SomeD [OF assms] by (subst parse_loop.simps) simp


section \<open>Termination of the parser\<close>

text \<open>
  The inner scan started at a loop-start inside the source moves the index forward, stays
  within the source, and collects every character it passes but the loop-start it began
  at and the loop-stop that closed it.
\<close>

lemma parse_scan_bounds:
  "0 \<le> i \<Longrightarrow> i < int (length blob) \<Longrightarrow> 1 \<le> balance \<Longrightarrow>
   parse_scan blob i innerContent balance = (innerContent', balance', i') \<Longrightarrow>
   i < i' \<and> i' \<le> int (length blob) \<and> 0 \<le> balance' \<and>
   int (length innerContent') =
     int (length innerContent) + (i' - i) - (if balance' = 0 then 1 else 0)"
proof (induction blob i innerContent balance rule: parse_scan.induct)
  case (1 blob i innerContent balance)
  obtain c where c: "blob_at blob i = Some c"
    using "1.prems"(1,2) by (simp add: blob_at_def)
  define ic where "ic =
    (if c = TOKEN_LOOP_START then innerContent @ [TOKEN_LOOP_START]
     else if c = TOKEN_LOOP_STOP
       then (if balance - 1 > 0 then innerContent @ [TOKEN_LOOP_STOP] else innerContent)
     else innerContent @ [c])"
  define b where "b =
    (if c = TOKEN_LOOP_START then balance + 1
     else if c = TOKEN_LOOP_STOP then balance - 1 else balance)"
  have b0: "0 \<le> b"
    using "1.prems"(3) by (simp add: b_def)
  have len: "int (length ic) = int (length innerContent) + 1 - (if b = 0 then 1 else 0)"
    using "1.prems"(3) by (auto simp: ic_def b_def)
  have unfold: "parse_scan blob i innerContent balance =
    (if b \<noteq> 0 \<and> i + 1 < int (length blob) then parse_scan blob (i + 1) ic b
     else (ic, b, i + 1))"
    using "1.prems"(3) by (subst parse_scan.simps) (auto simp: c ic_def b_def Let_def)
  show ?case
  proof (cases "b \<noteq> 0 \<and> i + 1 < int (length blob)")
    case True
    then have rec: "parse_scan blob (i + 1) ic b = (innerContent', balance', i')"
      using unfold "1.prems"(4) by simp
    have pair: "(ic, b) =
       (if blob_at blob i = Some TOKEN_LOOP_START then
               (if balance + 1 > 1 then innerContent @ [TOKEN_LOOP_START] else innerContent,
                balance + 1)
             else if blob_at blob i = Some TOKEN_LOOP_STOP then
               (if balance - 1 > 0 then innerContent @ [TOKEN_LOOP_STOP] else innerContent,
                balance - 1)
             else
               (innerContent @ (case blob_at blob i of Some c \<Rightarrow> [c] | None \<Rightarrow> ''undefined''),
                balance))"
      using "1.prems"(3) by (auto simp: c ic_def b_def)
    have "i + 1 < i' \<and> i' \<le> int (length blob) \<and> 0 \<le> balance' \<and>
      int (length innerContent') = int (length ic) + (i' - (i + 1)) - (if balance' = 0 then 1 else 0)"
      using True b0 "1.prems"(1) rec
      by (intro "1.IH" [OF pair refl]) auto
    with len True show ?thesis
      by auto
  next
    case False
    then have "parse_scan blob i innerContent balance = (ic, b, i + 1)"
      by (simp only: unfold if_False)
    with "1.prems"(4) have "(innerContent', balance', i') = (ic, b, i + 1)"
      by simp
    with len b0 "1.prems"(2) show ?thesis
      by auto
  qed
qed

lemma parse_scan_start:
  assumes "blob_at blob i = Some TOKEN_LOOP_START"
    and "parse_scan blob i [] 0 = (innerContent, balance, i')"
  shows "i < i' \<and> i' \<le> int (length blob) \<and> 0 \<le> balance \<and>
     int (length innerContent) = i' - i - 1 - (if balance = 0 then 1 else 0)"
proof -
  from blob_at_SomeD [OF assms(1)] have i: "0 \<le> i" "i < int (length blob)"
    by simp_all
  have unfold: "parse_scan blob i [] 0 =
    (if i + 1 < int (length blob) then parse_scan blob (i + 1) [] 1 else ([], 1, i + 1))"
    by (subst parse_scan.simps) (simp add: assms(1) Let_def)
  show ?thesis
  proof (cases "i + 1 < int (length blob)")
    case True
    with unfold assms(2) have "parse_scan blob (i + 1) [] 1 = (innerContent, balance, i')"
      by simp
    from parse_scan_bounds [OF _ True _ this] i show ?thesis
      by auto
  next
    case False
    with unfold assms(2) i show ?thesis
      by auto
  qed
qed

lemma parse_loop_returns: "0 \<le> i \<Longrightarrow> \<exists>r. parse_loop blob i res = Some r"
proof (induction "length blob" arbitrary: blob i res rule: less_induct)
  case outer: less
  have "\<exists>r. parse_loop blob j acc = Some r" if "0 \<le> j" for j acc
    using that
  proof (induction "nat (int (length blob) - j)" arbitrary: j acc rule: less_induct)
    case less
    show ?case
    proof (cases "j < int (length blob)")
      case False
      then show ?thesis
        by (subst parse_loop.simps) simp
    next
      case in_range: True
      show ?thesis
      proof (cases "blob_at blob j = Some TOKEN_LOOP_START")
        case False
        have "\<exists>r. parse_loop blob (j + 1)
                (acc @ (case blob_at blob j of Some c \<Rightarrow> [Leaf c] | None \<Rightarrow> [])) = Some r"
          using in_range less.prems by (intro less.hyps) auto
        with in_range False show ?thesis
          by (subst parse_loop.simps) simp
      next
        case start: True
        obtain innerContent balance i' where
          scan: "parse_scan blob j [] 0 = (innerContent, balance, i')"
          by (metis prod_cases3)
        from parse_scan_start [OF start scan] have bounds:
          "j < i'" "i' \<le> int (length blob)"
          "int (length innerContent) = i' - j - 1 - (if balance = 0 then 1 else 0)"
          by simp_all
        show ?thesis
        proof (cases "balance = 0")
          case False
          with in_range start scan show ?thesis
            by (subst parse_loop.simps) simp
        next
          case True
          have "int (length innerContent) < int (length blob)"
            using bounds less.prems by (cases "balance = 0") simp_all
          then have "length innerContent < length blob"
            by simp
          then obtain r1 where r1: "parse_loop innerContent 0 [] = Some r1"
            using outer.hyps [of innerContent 0 "[]"] by auto
          show ?thesis
          proof (cases r1)
            case (Inl e)
            with in_range start scan True r1 show ?thesis
              by (subst parse_loop.simps) simp
          next
            case (Inr innerParsed)
            have "\<exists>r. parse_loop blob (i' + 1) (acc @ [Seq innerParsed]) = Some r"
              using bounds less.prems by (intro less.hyps) auto
            with in_range start scan True r1 Inr show ?thesis
              by (subst parse_loop.simps) simp
          qed
        qed
      qed
    qed
  qed
  with outer.prems show ?case
    by blast
qed

text \<open>
  C9: \<open>parse\<close> returns on every source.  An inner scan begun at a loop-start leaves the
  index \<open>i'\<close> strictly beyond where it began and not beyond the end of the source, and the
  inner content handed to the recursive call is strictly shorter than the source; when
  the loop is closed it is the scanned stretch without its two outermost delimiters.
\<close>

theorem parse_terminates:
  "(\<exists>r. parse blob = Some r) \<and>
   (\<forall>i innerContent balance i'.
      blob_at blob i = Some TOKEN_LOOP_START \<and>
      parse_scan blob i [] 0 = (innerContent, balance, i') \<longrightarrow>
      i < i' \<and> i' \<le> int (length blob) \<and> length innerContent < length blob \<and>
      (balance = 0 \<longrightarrow> int (length innerContent) = i' - i - 2))"
proof (intro conjI allI impI)
  show "\<exists>r. parse blob = Some r"
    by (simp add: parse_def parse_loop_returns)
next
  fix i innerContent balance i'
  assume a: "blob_at blob i = Some TOKEN_LOOP_START \<and>
      parse_scan blob i [] 0 = (innerContent, balance, i')"
  then have s: "i < i' \<and> i' \<le> int (length blob) \<and> 0 \<le> balance \<and>
     int (length innerContent) = i' - i - 1 - (if balance = 0 then 1 else 0)"
    by (intro parse_scan_start) simp_all
  from a have "0 \<le> i"
    using blob_at_SomeD by blast
  with s have "int (length innerContent) < int (length blob)"
    by (cases "balance = 0") simp_all
  with s show "i < i'" "i' \<le> int (length blob)" "length innerContent < length blob"
    by simp_all
  show "int (length innerContent) = i' - i - 2" if "balance = 0"
    using s that by simp
qed

text \<open>The source \<open>[+]\<close>: the scan from index 0 collects \<open>+\<close> and stops at index 3.\<close>

theorem parse_terminates_witness:
  "(\<exists>r. parse ''[+]'' = Some r) \<and>
   blob_at ''[+]'' 0 = Some TOKEN_LOOP_START \<and>
   parse_scan ''[+]'' 0 [] 0 = (''+'', 0, 3) \<and>
   (0::int) < 3 \<and> (3::int) \<le> int (length ''[+]'') \<and> length ''+'' < length ''[+]'' \<and>
   int (length ''+'') = 3 - 0 - 2"
proof -
  have a: "blob_at ''[+]'' 0 = Some TOKEN_LOOP_START \<and>
      parse_scan ''[+]'' 0 [] 0 = (''+'', 0, 3)"
    by (simp add: parse_scan.simps blob_at_def)
  from parse_terminates [of "''[+]''"] a show ?thesis
    by simp
qed


section \<open>The backward scan\<close>

text \<open>
  Once the index is negative and the balance is not zero, the backward scan has no way
  out: \<open>blob[i]\<close> is undefined, so the balance stays, and \<open>i < blob.length\<close> stays true.
\<close>

lemma jump_back_returns:
  assumes "jump_back blob i balance = Some r"
  shows "\<not> (i < 0 \<and> balance \<noteq> 0)"
proof (rule jump_back.raw_induct
    [where P = "\<lambda>blob i balance r. \<not> (i < 0 \<and> balance \<noteq> 0)", OF _ assms], goal_cases)
  case (1 f blob i balance r)
  show ?case
  proof
    assume off: "i < 0 \<and> balance \<noteq> 0"
    then have dec: "js_decr i < 0" "js_decr i < int (length blob)"
      by (simp_all add: js_decr_def)
    with off 1(2) have "f blob (js_decr i) balance = Some r"
      by (simp add: blob_at_negative Let_def)
    then have "\<not> (js_decr i < 0 \<and> balance \<noteq> 0)"
      by (rule 1(1))
    with dec off show False
      by simp
  qed
qed

lemma jump_back_diverges: "i < 0 \<Longrightarrow> balance \<noteq> 0 \<Longrightarrow> jump_back blob i balance = None"
  using jump_back_returns [of blob i balance] by (cases "jump_back blob i balance") auto

lemma jump_back_balance_zero:
  assumes "jump_back blob i balance = Some r"
  shows "i < int (length blob) \<longrightarrow> snd r = 0"
proof (rule jump_back.raw_induct
    [where P = "\<lambda>blob i balance r. i < int (length blob) \<longrightarrow> snd r = 0", OF _ assms],
    goal_cases)
  case (1 f blob i balance r)
  show ?case
  proof
    assume lt: "i < int (length blob)"
    then have lt': "js_decr i < int (length blob)"
      by (simp add: js_decr_def)
    define b' where "b' = (if blob_at blob i = Some TOKEN_LOOP_START then balance + 1
             else if blob_at blob i = Some TOKEN_LOOP_STOP then balance - 1
             else balance)"
    show "snd r = 0"
    proof (cases "b' = 0")
      case True
      with 1(2) show ?thesis by (auto simp: Let_def b'_def)
    next
      case False
      with 1(2) lt' have "f blob (js_decr i) b' = Some r"
        by (simp add: Let_def b'_def)
      then have "js_decr i < int (length blob) \<longrightarrow> snd r = 0"
        by (rule 1(1))
      with lt' show ?thesis by blast
    qed
  qed
qed

lemma jump_back_plus_stop: "jump_back ''+]'' 1 0 = None"
proof -
  have "jump_back ''+]'' 1 0 = jump_back ''+]'' 0 (- 1)"
    by (subst jump_back.simps) (simp add: blob_at_def js_decr_def Let_def)
  also have "\<dots> = jump_back ''+]'' (- 1) (- 1)"
    by (subst jump_back.simps) (simp add: blob_at_def js_decr_def Let_def)
  also have "\<dots> = None"
    by (simp add: jump_back_diverges)
  finally show ?thesis .
qed


section \<open>The evaluator on given sources\<close>

text \<open>
  C2: \<open>eval("+]")\<close> reaches the loop-stop with cell 0 at 1; the backward scan runs off the
  start of the source with balance \<open>-1\<close> and never leaves its loop.  The call does not
  return, so in particular it does not return the unterminated-loop error.
\<close>

theorem eval_stray_loop_stop_diverges:
  "eval ''+]'' = None"
  by (simp add: eval_unfold jump_back_plus_stop)

text \<open>
  C3: \<open>eval("[]+")\<close> skips the loop, whose cell is 0, and then skips the \<open>+\<close> behind it as
  well: the forward scan leaves the index behind the loop-stop and the \<open>for\<close> loop
  increments it once more.  Cell 0 is 0 at the end, not 1.
\<close>

theorem eval_skips_character_after_loop:
  "eval ''[]+'' = Some (Inr \<lparr>ptrPos = 0, stdout = [], memory = fresh_mem\<rparr>)"
  by (simp add: eval_unfold)

text \<open>
  One round of the main loop that changes nothing: a character outside the token
  alphabet, and a loop-stop met while the current cell is not positive.
\<close>

lemma eval_loop_no_token:
  assumes "blob_at blob i = Some c" and "c \<notin> token_alphabet"
  shows "eval_loop blob i s = eval_loop blob (i + 1) s"
  using assms blob_at_SomeD [OF assms(1)]
  by (subst eval_loop.simps) (auto simp: eval_body_def token_alphabet_def)

lemma eval_loop_stop_not_positive:
  assumes "blob_at blob i = Some TOKEN_LOOP_STOP"
    and "\<not> is_positive (mem_read (mem s) (datPtr s))"
  shows "eval_loop blob i s = eval_loop blob (i + 1) s"
  using assms blob_at_SomeD [OF assms(1)]
  by (subst eval_loop.simps) (simp add: eval_body_def)

text \<open>
  C6: \<open>eval("+++[>+<-]")\<close> succeeds with pointer position 0, empty output and a memory of
  30000 cells in which cell 0 is 0, cell 1 is 3 and every other cell is as in the fresh
  memory, that is 0.
\<close>

theorem eval_loop_execution:
  "eval ''+++[>+<-]'' =
     Some (Inr \<lparr>ptrPos = 0, stdout = [],
                memory = \<lparr>arr_length = 30000,
                           arr_elems = (arr_elems fresh_mem)(0 \<mapsto> Num 0, 1 \<mapsto> Num 3)\<rparr>\<rparr>)"
proof -
  have jb: "jump_back ''+++[>+<-]'' 8 0 = Some (2, 0)"
    apply (subst jump_back.simps, simp add: blob_at_def js_decr_def Let_def)+
    done
  show ?thesis
    by (simp add: eval_unfold jb fun_eq_iff)
qed

text \<open>
  C7: \<open>eval("+a+b+.")\<close> and \<open>eval("+++.")\<close> return the same result, which is the successful
  one with cell 0 at 3 and the single output code unit 3.  In the main loop a character
  outside the token alphabet changes nothing: the round at that index goes on to the next
  index with the same variables.
\<close>

theorem eval_ignores_other_characters:
  "eval ''+a+b+.'' = eval ''+++.'' \<and>
   eval ''+++.'' =
     Some (Inr \<lparr>ptrPos = 0, stdout = [3],
                memory = \<lparr>arr_length = 30000,
                           arr_elems = (arr_elems fresh_mem)(0 \<mapsto> Num 3)\<rparr>\<rparr>) \<and>
   (\<forall>blob i s c. blob_at blob i = Some c \<and> c \<notin> token_alphabet \<longrightarrow>
      eval_loop blob i s = eval_loop blob (i + 1) s)"
proof (intro conjI allI impI)
  show "eval ''+a+b+.'' = eval ''+++.''"
    by (simp add: eval_unfold)
  show "eval ''+++.'' =
     Some (Inr \<lparr>ptrPos = 0, stdout = [3],
                memory = \<lparr>arr_length = 30000,
                           arr_elems = (arr_elems fresh_mem)(0 \<mapsto> Num 3)\<rparr>\<rparr>)"
    by (simp add: eval_unfold)
  show "eval_loop blob i s = eval_loop blob (i + 1) s"
    if "blob_at blob i = Some c \<and> c \<notin> token_alphabet" for blob i s c
    using that by (simp add: eval_loop_no_token)
qed

text \<open>The character \<open>a\<close> at index 1 of \<open>+a+b+.\<close>.\<close>

theorem eval_ignores_other_characters_witness:
  "blob_at ''+a+b+.'' 1 = Some CHR ''a'' \<and> CHR ''a'' \<notin> token_alphabet \<and>
   eval_loop ''+a+b+.'' 1 initial_state = eval_loop ''+a+b+.'' (1 + 1) initial_state \<and>
   eval ''+a+b+.'' = eval ''+++.''"
proof -
  have a: "blob_at ''+a+b+.'' 1 = Some CHR ''a'' \<and> CHR ''a'' \<notin> token_alphabet"
    by (simp add: blob_at_def token_alphabet_def)
  with eval_ignores_other_characters show ?thesis
    by blast
qed

text \<open>
  C10: a loop-stop met while the current cell holds a number that is at most 0 changes
  nothing and raises no error, whether or not a loop-start matches it; \<open>eval("]")\<close>
  succeeds with pointer position 0, the all-zero memory and empty output.
\<close>

theorem eval_stray_loop_stop_skipped:
  "(\<forall>blob i s n. blob_at blob i = Some TOKEN_LOOP_STOP \<and>
       mem_read (mem s) (datPtr s) = Some (Num n) \<and> n \<le> 0 \<longrightarrow>
       eval_loop blob i s = eval_loop blob (i + 1) s) \<and>
   eval '']'' = Some (Inr \<lparr>ptrPos = 0, stdout = [], memory = fresh_mem\<rparr>)"
proof (intro conjI allI impI)
  show "eval_loop blob i s = eval_loop blob (i + 1) s"
    if "blob_at blob i = Some TOKEN_LOOP_STOP \<and>
       mem_read (mem s) (datPtr s) = Some (Num n) \<and> n \<le> 0" for blob i s n
    using that by (simp add: eval_loop_stop_not_positive)
  show "eval '']'' = Some (Inr \<lparr>ptrPos = 0, stdout = [], memory = fresh_mem\<rparr>)"
    by (simp add: eval_unfold)
qed

text \<open>The loop-stop at index 0 of \<open>]\<close>, met in the initial state.\<close>

theorem eval_stray_loop_stop_skipped_witness:
  "blob_at '']'' 0 = Some TOKEN_LOOP_STOP \<and>
   mem_read (mem initial_state) (datPtr initial_state) = Some (Num 0) \<and> (0::int) \<le> 0 \<and>
   eval_loop '']'' 0 initial_state = eval_loop '']'' (0 + 1) initial_state \<and>
   eval '']'' = Some (Inr \<lparr>ptrPos = 0, stdout = [], memory = fresh_mem\<rparr>)"
proof -
  have a: "blob_at '']'' 0 = Some TOKEN_LOOP_STOP \<and>
   mem_read (mem initial_state) (datPtr initial_state) = Some (Num 0) \<and> (0::int) \<le> 0"
    by (simp add: blob_at_def initial_state_def fresh_mem_def mem_read_def)
  with eval_stray_loop_stop_skipped show ?thesis
    by blast
qed

section \<open>The memory a run returns\<close>

text \<open>
  A run of move-right tokens moves the data pointer and nothing else; no check stops it
  at the end of the 30000 cells.
\<close>

lemma blob_at_replicate_append:
  "0 \<le> i \<Longrightarrow> i < int n \<Longrightarrow> blob_at (replicate n c @ rest) i = Some c"
  by (simp add: blob_at_def nth_append nat_less_iff)

lemma eval_loop_move_right:
  "0 \<le> i \<Longrightarrow> i \<le> int n \<Longrightarrow> datPtr s + (int n - i) \<le> 9007199254740992 \<Longrightarrow>
   eval_loop (replicate n TOKEN_RIGHT @ rest) i s =
   eval_loop (replicate n TOKEN_RIGHT @ rest) (int n) (s\<lparr>datPtr := datPtr s + (int n - i)\<rparr>)"
proof (induction "nat (int n - i)" arbitrary: i s)
  case 0
  then have "i = int n"
    by simp
  then show ?case
    by simp
next
  case (Suc d)
  then have lt: "i < int n"
    by linarith
  with Suc.prems have at: "blob_at (replicate n TOKEN_RIGHT @ rest) i = Some TOKEN_RIGHT"
    by (simp add: blob_at_replicate_append)
  have incr: "js_incr (datPtr s) = datPtr s + 1"
    using lt Suc.prems by (simp add: js_incr_def)
  have "eval_loop (replicate n TOKEN_RIGHT @ rest) i s =
        eval_loop (replicate n TOKEN_RIGHT @ rest) (i + 1) (s\<lparr>datPtr := datPtr s + 1\<rparr>)"
    using lt at incr by (subst eval_loop.simps) (simp add: eval_body_def)
  also have "\<dots> = eval_loop (replicate n TOKEN_RIGHT @ rest) (int n)
      (s\<lparr>datPtr := datPtr s + 1, datPtr := datPtr (s\<lparr>datPtr := datPtr s + 1\<rparr>) + (int n - (i + 1))\<rparr>)"
    using Suc.hyps(2) Suc.prems lt by (intro Suc.hyps(1)) simp_all
  finally show ?case
    by (simp add: algebra_simps)
qed

text \<open>
  The run of 30000 move-right tokens followed by one increment, evaluated.
\<close>

lemma eval_move_right_incr:
  "eval (replicate 30000 TOKEN_RIGHT @ ''+'') =
     Some (Inr \<lparr>ptrPos = 30000, stdout = [],
                memory = \<lparr>arr_length = 30001,
                           arr_elems = (arr_elems fresh_mem)(30000 \<mapsto> NaN)\<rparr>\<rparr>)"
proof -
  have "eval (replicate 30000 TOKEN_RIGHT @ ''+'') =
        eval_loop (replicate 30000 TOKEN_RIGHT @ ''+'') (int 30000)
          (initial_state\<lparr>datPtr := datPtr initial_state + (int 30000 - 0)\<rparr>)"
    unfolding eval_def by (rule eval_loop_move_right) (simp_all add: initial_state_def)
  also have "\<dots> = eval_loop (replicate 30000 TOKEN_RIGHT @ ''+'') 30001
          \<lparr>mem = \<lparr>arr_length = 30001, arr_elems = (arr_elems fresh_mem)(30000 \<mapsto> NaN)\<rparr>,
           datPtr = 30000, programOutput = []\<rparr>"
    by (subst eval_loop.simps)
       (simp add: eval_body_def blob_at_def nth_append initial_state_def fresh_mem_def
          mem_incr_def mem_read_def mem_write_def)
  also have "\<dots> = Some (Inr \<lparr>ptrPos = 30000, stdout = [],
                memory = \<lparr>arr_length = 30001,
                           arr_elems = (arr_elems fresh_mem)(30000 \<mapsto> NaN)\<rparr>\<rparr>)"
    by (subst eval_loop.simps) (simp)
  finally show ?thesis .
qed

text \<open>
  C4, as stated, fails: after 30000 move-right tokens the data pointer is 30000, one
  beyond the last cell, and the increment there reads \<open>undefined\<close>, stores \<open>NaN\<close> at index
  30000 and so makes the array 30001 long.  The call succeeds, and the memory it returns
  has 30001 elements, the last of them not an integer.
\<close>

theorem eval_write_beyond_tape:
  "eval (replicate 30000 TOKEN_RIGHT @ ''+'') =
     Some (Inr \<lparr>ptrPos = 30000, stdout = [],
                memory = \<lparr>arr_length = 30001,
                           arr_elems = (arr_elems fresh_mem)(30000 \<mapsto> NaN)\<rparr>\<rparr>)"
  by (rule eval_move_right_incr)

text \<open>
  A round of the main loop changes \<open>mem\<close> at an increment or decrement token only, and
  there at the data pointer only.  A write leaves an integer in every cell from 0 to
  29999, never makes the array shorter, and makes it longer than 30000 when the pointer
  is an array index from 30000 on; a write anywhere else leaves the length and the
  elements behind the cells alone.
\<close>

lemma eval_body_mem:
  assumes "eval_body blob i s = Some (Inr (i', s'))"
  shows "mem s' =
     (if blob_at blob i = Some TOKEN_INCR then mem_incr (mem s) (datPtr s)
      else if blob_at blob i = Some TOKEN_DECR then mem_decr (mem s) (datPtr s)
      else mem s)"
  using assms
  by (auto simp: eval_body_def split: if_splits prod.splits option.splits)

lemma eval_body_write_index:
  assumes "eval_body blob i s = Some (Inr (i', s'))" and "is_write blob i"
  shows "i' = i"
  using assms
  by (auto simp: eval_body_def is_write_def split: if_splits)

lemma cells_integer_write:
  assumes "cells_integer m"
  shows "cells_integer (mem_incr m p)" and "cells_integer (mem_decr m p)"
proof -
  have "\<exists>n. arr_elems (mem_incr m p) k = Some (Num n) \<and>
            (\<exists>n'. arr_elems (mem_decr m p) k = Some (Num n'))"
    if k: "0 \<le> k \<and> k < 30000" for k
  proof -
    from assms k obtain n where n: "arr_elems m k = Some (Num n)"
      unfolding cells_integer_def by blast
    then show ?thesis
      by (auto simp: mem_incr_def mem_decr_def mem_write_def mem_read_def)
  qed
  then show "cells_integer (mem_incr m p)" and "cells_integer (mem_decr m p)"
    unfolding cells_integer_def by blast+
qed

lemma ends_at_tape_write:
  assumes "ends_at_tape m" and "\<not> (30000 \<le> p \<and> p < 4294967295)"
  shows "ends_at_tape (mem_incr m p)" and "ends_at_tape (mem_decr m p)"
  using assms
  by (auto simp: ends_at_tape_def mem_incr_def mem_decr_def mem_write_def)

lemma arr_length_write:
  "arr_length m \<le> arr_length (mem_incr m p)" "arr_length m \<le> arr_length (mem_decr m p)"
  by (simp_all add: mem_incr_def mem_decr_def mem_write_def)

lemma arr_length_write_past_end:
  assumes "30000 \<le> p" and "p < 4294967295"
  shows "30000 < arr_length (mem_incr m p)" and "30000 < arr_length (mem_decr m p)"
  using assms by (simp_all add: mem_incr_def mem_decr_def mem_write_def)

lemma reaches_cells_integer:
  assumes "reaches blob i s"
  shows "cells_integer (mem s)"
  using assms
proof (induction rule: reaches_from.induct)
  case reaches_start
  show ?case
    by (simp add: initial_state_def cells_integer_def fresh_mem_def)
next
  case (reaches_round i s i' s')
  with eval_body_mem [OF reaches_round.hyps(3)] show ?case
    by (simp add: cells_integer_write)
qed

lemma reaches_untouched:
  assumes "reaches blob i s" and "\<not> touched blob k"
  shows "arr_elems (mem s) k = arr_elems fresh_mem k"
  using assms(1)
proof (induction rule: reaches_from.induct)
  case reaches_start
  show ?case
    by (simp add: initial_state_def)
next
  case (reaches_round i s i' s')
  show ?case
  proof (cases "is_write blob i")
    case True
    with reaches_round.hyps(1) assms(2) have "datPtr s \<noteq> k"
      unfolding touched_def by blast
    with reaches_round.IH eval_body_mem [OF reaches_round.hyps(3)] show ?thesis
      by (simp add: mem_incr_def mem_decr_def mem_write_def)
  next
    case False
    with reaches_round.IH eval_body_mem [OF reaches_round.hyps(3)] show ?thesis
      by (simp add: is_write_def)
  qed
qed

lemma reaches_ends_at_tape:
  assumes "reaches blob i s" and "\<not> writes_past_end blob"
  shows "ends_at_tape (mem s)"
  using assms(1)
proof (induction rule: reaches_from.induct)
  case reaches_start
  show ?case
    by (simp add: initial_state_def ends_at_tape_def fresh_mem_def)
next
  case (reaches_round i s i' s')
  show ?case
  proof (cases "is_write blob i")
    case True
    with reaches_round.hyps(1) have "touched blob (datPtr s)"
      unfolding touched_def by blast
    with assms(2) have "\<not> (30000 \<le> datPtr s \<and> datPtr s < 4294967295)"
      unfolding writes_past_end_def by blast
    with reaches_round.IH eval_body_mem [OF reaches_round.hyps(3)] show ?thesis
      by (simp add: ends_at_tape_write)
  next
    case False
    with reaches_round.IH eval_body_mem [OF reaches_round.hyps(3)] show ?thesis
      by (simp add: is_write_def)
  qed
qed

lemma reaches_from_first_round:
  assumes "reaches_from blob i0 s0 j u"
  shows "(j = i0 \<and> u = s0) \<or>
     (i0 < int (length blob) \<and>
      (\<exists>i' s'. eval_body blob i0 s0 = Some (Inr (i', s')) \<and> reaches_from blob (i' + 1) s' j u))"
  using assms
proof (induction rule: reaches_from.induct)
  case reaches_start
  show ?case
    by simp
next
  case (reaches_round i s i' s')
  from reaches_round.IH show ?case
  proof
    assume "i = i0 \<and> s = s0"
    with reaches_round.hyps(2,3) show ?thesis
      by (auto intro: reaches_from.reaches_start)
  next
    assume "i0 < int (length blob) \<and>
      (\<exists>i' s'. eval_body blob i0 s0 = Some (Inr (i', s')) \<and> reaches_from blob (i' + 1) s' i s)"
    with reaches_round.hyps(2,3) show ?thesis
      by (blast intro: reaches_from.reaches_round)
  qed
qed

lemma eval_loop_result_reached:
  assumes "eval_loop blob i s = Some y"
  shows "\<forall>r. y = Inr r \<and> reaches blob i s \<longrightarrow> (\<exists>j t. reaches blob j t \<and> memory r = mem t)"
proof (rule eval_loop.raw_induct
    [where P = "\<lambda>blob i s y. \<forall>r. y = Inr r \<and> reaches blob i s \<longrightarrow>
                  (\<exists>j t. reaches blob j t \<and> memory r = mem t)", OF _ assms], goal_cases)
  case (1 f blob i s y)
  show ?case
  proof (intro allI impI)
    fix r
    assume a: "y = Inr r \<and> reaches blob i s"
    show "\<exists>j t. reaches blob j t \<and> memory r = mem t"
    proof (cases "i < int (length blob)")
      case False
      with 1(2) a have "memory r = mem s"
        by auto
      with a show ?thesis
        by blast
    next
      case True
      with 1(2) a obtain i' s' where
        body: "eval_body blob i s = Some (Inr (i', s'))" and rest: "f blob (i' + 1) s' = Some y"
        by (auto split: option.splits sum.splits)
      from a True body have "reaches blob (i' + 1) s'"
        by (blast intro: reaches_round)
      with 1(1) [OF rest] a show ?thesis
        by blast
    qed
  qed
qed

lemma eval_loop_length:
  assumes "eval_loop blob i s = Some y"
  shows "\<forall>r. y = Inr r \<longrightarrow>
     arr_length (mem s) \<le> arr_length (memory r) \<and>
     (\<forall>j u. reaches_from blob i s j u \<and> is_write blob j \<and>
        30000 \<le> datPtr u \<and> datPtr u < 4294967295 \<longrightarrow> 30000 < arr_length (memory r))"
proof (rule eval_loop.raw_induct
    [where P = "\<lambda>blob i s y. \<forall>r. y = Inr r \<longrightarrow>
     arr_length (mem s) \<le> arr_length (memory r) \<and>
     (\<forall>j u. reaches_from blob i s j u \<and> is_write blob j \<and>
        30000 \<le> datPtr u \<and> datPtr u < 4294967295 \<longrightarrow> 30000 < arr_length (memory r))",
     OF _ assms], goal_cases)
  case (1 f blob i s y)
  show ?case
  proof (intro allI impI conjI)
    fix r
    assume y: "y = Inr r"
    show "arr_length (mem s) \<le> arr_length (memory r)"
    proof (cases "i < int (length blob)")
      case False
      with 1(2) y show ?thesis
        by auto
    next
      case True
      with 1(2) y obtain i' s' where
        body: "eval_body blob i s = Some (Inr (i', s'))" and rest: "f blob (i' + 1) s' = Some y"
        by (auto split: option.splits sum.splits)
      from eval_body_mem [OF body] have "arr_length (mem s) \<le> arr_length (mem s')"
        by (simp add: arr_length_write)
      with 1(1) [OF rest] y show ?thesis
        by fastforce
    qed
  next
    fix r j u
    assume y: "y = Inr r"
      and w: "reaches_from blob i s j u \<and> is_write blob j \<and>
        30000 \<le> datPtr u \<and> datPtr u < 4294967295"
    from w have "0 \<le> j \<and> j < int (length blob)"
      by (auto simp: is_write_def dest: blob_at_SomeD)
    from reaches_from_first_round [of blob i s j u] w
    have inside: "i < int (length blob)"
      using \<open>0 \<le> j \<and> j < int (length blob)\<close> by auto
    with 1(2) y obtain i' s' where
      body: "eval_body blob i s = Some (Inr (i', s'))" and rest: "f blob (i' + 1) s' = Some y"
      by (auto split: option.splits sum.splits)
    from reaches_from_first_round [of blob i s j u] w body
    consider "j = i \<and> u = s" | "reaches_from blob (i' + 1) s' j u"
      by auto
    then show "30000 < arr_length (memory r)"
    proof cases
      case 1
      with w eval_body_mem [OF body] have "30000 < arr_length (mem s')"
        by (auto simp: is_write_def arr_length_write_past_end)
      with \<open>\<And>blob i s y. f blob i s = Some y \<Longrightarrow> _\<close> [OF rest] y show ?thesis
        by fastforce
    next
      case 2
      with \<open>\<And>blob i s y. f blob i s = Some y \<Longrightarrow> _\<close> [OF rest] y w show ?thesis
        by blast
    qed
  qed
qed

text \<open>
  C4, amended: for every successful call to \<open>eval\<close>, each cell 0 to 29999 of the returned
  memory holds an integer, and every such cell at which no increment or decrement was
  executed is 0.  When no increment or decrement was executed with the data pointer at
  an array index from 30000 to \<open>2^32 - 2\<close>, the memory has length exactly 30000 and no
  element at any later array index; when one was, its length is greater than 30000.
\<close>

theorem eval_memory_cells:
  assumes "eval blob = Some (Inr r)"
  shows "(\<forall>k. 0 \<le> k \<and> k < 30000 \<longrightarrow>
            (\<exists>n. arr_elems (memory r) k = Some (Num n)) \<and>
            (\<not> touched blob k \<longrightarrow> arr_elems (memory r) k = Some (Num 0))) \<and>
     (\<not> writes_past_end blob \<longrightarrow>
        arr_length (memory r) = 30000 \<and>
        (\<forall>k. 30000 \<le> k \<and> k < 4294967295 \<longrightarrow> arr_elems (memory r) k = None)) \<and>
     (writes_past_end blob \<longrightarrow> 30000 < arr_length (memory r))"
proof -
  from assms have run: "eval_loop blob 0 initial_state = Some (Inr r)"
    by (simp add: eval_def)
  from eval_loop_result_reached [OF run] obtain j t where
    t: "reaches blob j t" "memory r = mem t"
    using reaches_start by blast
  have cells: "\<exists>n. arr_elems (memory r) k = Some (Num n)" if "0 \<le> k \<and> k < 30000" for k
    using reaches_cells_integer [OF t(1)] that unfolding cells_integer_def t(2) by blast
  have zero: "arr_elems (memory r) k = Some (Num 0)"
    if "0 \<le> k \<and> k < 30000" and "\<not> touched blob k" for k
    using reaches_untouched [OF t(1) that(2)] that(1) by (simp add: t(2) fresh_mem_def)
  have kept: "arr_length (memory r) = 30000 \<and>
        (\<forall>k. 30000 \<le> k \<and> k < 4294967295 \<longrightarrow> arr_elems (memory r) k = None)"
    if "\<not> writes_past_end blob"
    using reaches_ends_at_tape [OF t(1) that] unfolding ends_at_tape_def t(2) by blast
  have longer: "30000 < arr_length (memory r)" if "writes_past_end blob"
  proof -
    from that obtain i s where "reaches blob i s" and "is_write blob i"
      and "30000 \<le> datPtr s" and "datPtr s < 4294967295"
      unfolding writes_past_end_def touched_def by blast
    with eval_loop_length [OF run] show ?thesis
      by blast
  qed
  from cells zero kept longer show ?thesis
    by blast
qed

text \<open>
  Two sources.  The run of \<open><+\<close> writes once, at pointer \<open>-1\<close>: the memory keeps its
  length 30000 and its untouched cell 7.  The run of 30000 move-right tokens and an
  increment writes at pointer 30000: the memory is 30001 long.
\<close>

lemma reaches_left_incr:
  assumes "reaches ''<+'' i s"
  shows "(i = 0 \<and> datPtr s = 0) \<or> (i = 1 \<and> datPtr s = - 1) \<or> (i = 2 \<and> datPtr s = - 1)"
  using assms
proof (induction rule: reaches_from.induct)
  case reaches_start
  show ?case
    by (simp add: initial_state_def)
next
  case (reaches_round i s i' s')
  from reaches_round.IH reaches_round.hyps(2) consider
    "i = 0 \<and> datPtr s = 0" | "i = 1 \<and> datPtr s = - 1"
    by auto
  then show ?case
  proof cases
    case 1
    with reaches_round.hyps(3) show ?thesis
      by (auto simp: eval_body_def blob_at_def js_decr_def)
  next
    case 2
    with reaches_round.hyps(3) show ?thesis
      by (auto simp: eval_body_def blob_at_def)
  qed
qed

lemma touched_left_incr:
  assumes "touched ''<+'' k"
  shows "k = - 1"
proof -
  from assms obtain i s where "reaches ''<+'' i s" and "is_write ''<+'' i" and "datPtr s = k"
    unfolding touched_def by blast
  with reaches_left_incr [of i s] show ?thesis
    by (auto simp: is_write_def blob_at_def)
qed

lemma reaches_move_right:
  "k \<le> n \<Longrightarrow> int n \<le> 9007199254740992 \<Longrightarrow>
   reaches (replicate n TOKEN_RIGHT @ rest) (int k) (initial_state\<lparr>datPtr := int k\<rparr>)"
proof (induction k)
  case 0
  have "initial_state\<lparr>datPtr := 0\<rparr> = initial_state"
    by (simp add: initial_state_def)
  then show ?case
    by (simp add: reaches_start)
next
  case (Suc k)
  let ?blob = "replicate n TOKEN_RIGHT @ rest"
  let ?s = "initial_state\<lparr>datPtr := int k\<rparr>"
  from Suc have before: "reaches ?blob (int k) ?s"
    by simp
  from Suc.prems have inside: "int k < int (length ?blob)"
    by simp
  from Suc.prems have "blob_at ?blob (int k) = Some TOKEN_RIGHT"
    by (simp add: blob_at_replicate_append)
  moreover from Suc.prems have "js_incr (int k) = int k + 1"
    by (simp add: js_incr_def)
  ultimately have "eval_body ?blob (int k) ?s = Some (Inr (int k, ?s\<lparr>datPtr := int k + 1\<rparr>))"
    by (simp add: eval_body_def)
  from reaches_round [OF before inside this] show ?case
    by (simp add: add.commute)
qed

theorem eval_memory_cells_witness:
  "eval ''<+'' =
     Some (Inr \<lparr>ptrPos = - 1, stdout = [],
                memory = \<lparr>arr_length = 30000,
                           arr_elems = (arr_elems fresh_mem)(- 1 \<mapsto> NaN)\<rparr>\<rparr>) \<and>
   \<not> touched ''<+'' 7 \<and> \<not> writes_past_end ''<+'' \<and>
   ((arr_elems fresh_mem)(- 1 \<mapsto> NaN)) 7 = Some (Num 0) \<and>
   ((arr_elems fresh_mem)(- 1 \<mapsto> NaN)) 30000 = None \<and>
   writes_past_end (replicate 30000 TOKEN_RIGHT @ ''+'') \<and>
   eval (replicate 30000 TOKEN_RIGHT @ ''+'') =
     Some (Inr \<lparr>ptrPos = 30000, stdout = [],
                memory = \<lparr>arr_length = 30001,
                           arr_elems = (arr_elems fresh_mem)(30000 \<mapsto> NaN)\<rparr>\<rparr>) \<and>
   30000 < arr_length \<lparr>arr_length = 30001, arr_elems = (arr_elems fresh_mem)(30000 \<mapsto> NaN)\<rparr>"
proof -
  have run: "eval ''<+'' =
     Some (Inr \<lparr>ptrPos = - 1, stdout = [],
                memory = \<lparr>arr_length = 30000,
                           arr_elems = (arr_elems fresh_mem)(- 1 \<mapsto> NaN)\<rparr>\<rparr>)"
    by (simp add: eval_unfold)
  have untouched: "\<not> touched ''<+'' 7"
    using touched_left_incr [of 7] by auto
  have inside: "\<not> writes_past_end ''<+''"
    unfolding writes_past_end_def using touched_left_incr by fastforce
  have "reaches (replicate 30000 TOKEN_RIGHT @ ''+'') (int 30000)
          (initial_state\<lparr>datPtr := int 30000\<rparr>)"
    by (rule reaches_move_right) simp_all
  moreover have "is_write (replicate 30000 TOKEN_RIGHT @ ''+'') (int 30000)"
    by (simp add: is_write_def blob_at_def nth_append)
  ultimately have "touched (replicate 30000 TOKEN_RIGHT @ ''+'') 30000"
    unfolding touched_def by fastforce
  then have past: "writes_past_end (replicate 30000 TOKEN_RIGHT @ ''+'')"
    unfolding writes_past_end_def by fastforce
  note long = eval_move_right_incr
  from eval_memory_cells [OF run] untouched inside
  have "((arr_elems fresh_mem)(- 1 \<mapsto> NaN)) 7 = Some (Num 0)"
    and "((arr_elems fresh_mem)(- 1 \<mapsto> NaN)) 30000 = None"
    by auto
  moreover from eval_memory_cells [OF long] past have "(30000::int) < 30001"
    by simp
  ultimately show ?thesis
    using run untouched inside past long by simp
qed

end
